theory Spec2Isabelle
  imports Complex_Main
begin

section \<open>Chunking utilities: the data model\<close>

text \<open>
  The module \<^verbatim>\<open>chunking_method_LAB_2.py\<close> holds three chunkers over Python strings.
  A Python \<^verbatim>\<open>str\<close> is a \<^typ>\<open>string\<close> here (characters with code points below 256),
  Python's unbounded integers are \<^typ>\<open>int\<close>, and a raised exception is the left
  summand of the result.
\<close>

datatype error = ValueError string | OtherError string

text \<open>
  The characters that \<^verbatim>\<open>str.split()\<close>, \<^verbatim>\<open>str.strip()\<close> and the regular
  expression class \<^verbatim>\<open>\s\<close> treat as white space, for code points below 256:
  TAB, LF, VT, FF, CR, the separators FS, GS, RS, US, the blank, NEL and the no-break space.
\<close>

definition is_space :: "char \<Rightarrow> bool" where
  "is_space c = (let k = (of_char c :: nat) in
      (9 \<le> k \<and> k \<le> 13) \<or> (28 \<le> k \<and> k \<le> 32) \<or> k = 133 \<or> k = 160)"

subsection \<open>Library operations of Python used by the module\<close>

text \<open>Index normalisation of a slice bound: a negative bound counts from the end, and
  every bound is clamped into the range of the sequence.\<close>

definition norm_index :: "nat \<Rightarrow> int \<Rightarrow> nat" where
  "norm_index n k = (if k < 0 then nat (max 0 (int n + k)) else min n (nat k))"

text \<open>\<^verbatim>\<open>xs[s:e]\<close>\<close>

definition slice :: "'a list \<Rightarrow> int \<Rightarrow> int \<Rightarrow> 'a list" where
  "slice xs s e = (let a = norm_index (length xs) s; b = norm_index (length xs) e
                   in take (b - a) (drop a xs))"

text \<open>\<^verbatim>\<open>xs[s:]\<close>\<close>

definition slice_from :: "'a list \<Rightarrow> int \<Rightarrow> 'a list" where
  "slice_from xs s = drop (norm_index (length xs) s) xs"

text \<open>\<^verbatim>\<open>s.strip()\<close>\<close>

definition strip :: "string \<Rightarrow> string" where
  "strip s = rev (dropWhile is_space (rev (dropWhile is_space s)))"

text \<open>\<^verbatim>\<open>s.split()\<close>: the maximal runs of characters that are not white space. The first
  argument is the word being read.\<close>

fun split_aux :: "string \<Rightarrow> string \<Rightarrow> string list" where
  "split_aux w [] = (if w = [] then [] else [w])"
| "split_aux w (c # cs) =
     (if is_space c then (if w = [] then split_aux [] cs else w # split_aux [] cs)
      else split_aux (w @ [c]) cs)"

definition split_ws :: "string \<Rightarrow> string list" where
  "split_ws s = split_aux [] s"

text \<open>\<^verbatim>\<open>sep.join(xs)\<close>\<close>

fun join :: "string \<Rightarrow> string list \<Rightarrow> string" where
  "join sep [] = []"
| "join sep [x] = x"
| "join sep (x # y # ys) = x @ sep @ join sep (y # ys)"

text \<open>
  \<^verbatim>\<open>_SENTENCE_SPLIT_RE.split(text)\<close> for the pattern \<^verbatim>\<open>(?<=[.!?])\s+\<close>: a separator
  is a maximal run of white space whose first character follows one of the three
  punctuation marks. The flag says that the scan is inside a separator, the second argument
  is the piece being read. Like \<^verbatim>\<open>re.split\<close>, the result ends with the (possibly empty)
  piece after the last separator.
\<close>

definition is_punct :: "char \<Rightarrow> bool" where
  "is_punct c = (c = CHR ''.'' \<or> c = CHR ''!'' \<or> c = CHR ''?'')"

fun re_split :: "bool \<Rightarrow> string \<Rightarrow> string \<Rightarrow> string list" where
  "re_split insep acc [] = [acc]"
| "re_split insep acc (c # cs) =
     (if is_space c \<and> insep then re_split True [] cs
      else if is_space c \<and> acc \<noteq> [] \<and> is_punct (last acc) then acc # re_split True [] cs
      else re_split False (acc @ [c]) cs)"

definition sentence_split :: "string \<Rightarrow> string list" where
  "sentence_split text = re_split False [] text"

subsection \<open>The optional tokenizer\<close>

text \<open>
  The encoder of the external library is an opaque pair of operations on token lists. The
  library itself is a parameter of the model: it is absent (the import fails), or it has
  a lookup that returns an encoder or raises.
\<close>

record 'tok encoder =
  encode :: "string \<Rightarrow> 'tok list"
  decode :: "'tok list \<Rightarrow> string"

type_synonym 'tok tiktoken = "(string \<Rightarrow> error + 'tok encoder) option"

definition try_get_tokenizer :: "'tok tiktoken \<Rightarrow> string \<Rightarrow> 'tok encoder option" where
  "try_get_tokenizer tiktoken tokenizer_name =
     (case tiktoken of
        None \<Rightarrow> None
      | Some get_encoding \<Rightarrow>
          (case get_encoding tokenizer_name of Inl e \<Rightarrow> None | Inr enc \<Rightarrow> Some enc))"

section \<open>The window loop of the token and character chunkers\<close>

text \<open>
  The three \<^verbatim>\<open>while start < n\<close> loops of the module (both branches of
  \<^verbatim>\<open>chunk_text_tokenwise\<close>, and \<^verbatim>\<open>chunk_text_charwise\<close>) have the same body and
  differ only in how the window \<^verbatim>\<open>xs[start:end]\<close> is turned into a chunk: decoded,
  joined by blanks, or taken as it is. The loop appends to \<^verbatim>\<open>chunks\<close>; the model
  returns the chunks in the order they are appended.
\<close>

function window_loop :: "('a list \<Rightarrow> string) \<Rightarrow> 'a list \<Rightarrow> int \<Rightarrow> int \<Rightarrow> int \<Rightarrow> string list" where
  "window_loop render xs max_size overlap start =
     (if start < int (length xs) then
        (if min (start + max_size) (int (length xs)) = int (length xs)
         then [render (slice xs start (min (start + max_size) (int (length xs))))]
         else render (slice xs start (min (start + max_size) (int (length xs))))
              # window_loop render xs max_size overlap
                  (max (min (start + max_size) (int (length xs)) - overlap)
                       (min (start + max_size) (int (length xs)) - max_size + 1)))
      else [])"
  by pat_completeness auto
termination
  by (relation "measure (\<lambda>(render, xs, max_size, overlap, start). nat (int (length xs) - start))")
     auto

declare window_loop.simps [simp del]

definition chunk_text_tokenwise ::
  "'tok tiktoken \<Rightarrow> string \<Rightarrow> int \<Rightarrow> int \<Rightarrow> string \<Rightarrow> error + string list" where
  "chunk_text_tokenwise tiktoken text max_tokens overlap tokenizer_name =
     (if max_tokens \<le> 0 then Inl (ValueError ''max_tokens must be > 0'')
      else if overlap < 0 then Inl (ValueError ''overlap must be >= 0'')
      else (case try_get_tokenizer tiktoken tokenizer_name of
              Some encoder \<Rightarrow>
                Inr (window_loop (decode encoder) (encode encoder text) max_tokens overlap 0)
            | None \<Rightarrow>
                Inr (window_loop (join '' '') (split_ws text) max_tokens overlap 0)))"

definition chunk_text_charwise :: "string \<Rightarrow> int \<Rightarrow> int \<Rightarrow> error + string list" where
  "chunk_text_charwise text max_chars overlap_chars =
     (if max_chars \<le> 0 then Inl (ValueError ''max_chars must be > 0'')
      else if overlap_chars < 0 then Inl (ValueError ''overlap_chars must be >= 0'')
      else Inr (window_loop (\<lambda>w. w) text max_chars overlap_chars 0))"

section \<open>The sentence chunker\<close>

text \<open>
  The loop of \<^verbatim>\<open>chunk_text_sentencewise\<close> either consumes sentence \<open>i\<close> or emits the
  buffer and reseeds it, without a bound that is visible in the code, so the model is a
  partial function: \<open>None\<close> is a loop that never ends, \<open>Some (chunks, current)\<close> the state
  when it ends.
\<close>

partial_function (option) sentence_loop ::
  "string list \<Rightarrow> int \<Rightarrow> int \<Rightarrow> string list \<Rightarrow> string \<Rightarrow> nat \<Rightarrow> (string list \<times> string) option" where
  "sentence_loop sentences max_chars overlap_chars chunks current i =
     (if i < length sentences then
        (if int (length current) + (if current \<noteq> [] then 1 else 0) + int (length (sentences ! i))
              \<le> max_chars \<or> current = []
         then sentence_loop sentences max_chars overlap_chars chunks
                (if current \<noteq> [] then strip (current @ '' '' @ sentences ! i) else sentences ! i)
                (i + 1)
         else sentence_loop sentences max_chars overlap_chars (chunks @ [current])
                (if overlap_chars > 0 then slice_from current (- overlap_chars) else [])
                i)
      else Some (chunks, current))"

declare sentence_loop.simps [code]

definition sentences_of :: "string \<Rightarrow> string list" where
  "sentences_of text = filter (\<lambda>s. s \<noteq> []) (map strip (sentence_split text))"

definition chunk_text_sentencewise :: "string \<Rightarrow> int \<Rightarrow> int \<Rightarrow> (error + string list) option" where
  "chunk_text_sentencewise text max_chars overlap_chars =
     (if max_chars \<le> 0 then Some (Inl (ValueError ''max_chars must be > 0''))
      else if overlap_chars < 0 then Some (Inl (ValueError ''overlap_chars must be >= 0''))
      else (case sentence_loop (sentences_of text) max_chars overlap_chars [] [] 0 of
              None \<Rightarrow> None
            | Some (chunks, current) \<Rightarrow>
                Some (Inr (if current \<noteq> [] then chunks @ [current] else chunks))))"

text \<open>The text of the demonstration under \<^verbatim>\<open>__main__\<close>.\<close>

definition sample :: string where
  "sample = ''This is a short example. It demonstrates chunking by sentences, ''
          @ ''characters, or tokens. Use token-based chunking for embeddings ''
          @ ''and character/sentence chunking for simpler pipelines.''"

section \<open>Auxiliary notions for the statements and proofs\<close>

text \<open>
  With \<open>0 \<le> overlap\<close> and \<open>0 < max_size\<close> the assignment
  \<^verbatim>\<open>start = max(end - overlap, end - max_size + 1)\<close> moves the start of a full window
  forward by \<open>max_size - min overlap (max_size - 1)\<close> positions.
\<close>

definition stride :: "int \<Rightarrow> int \<Rightarrow> nat" where
  "stride m ov = nat (m - min ov (m - 1))"

text \<open>The windows of a list: pieces of \<open>m\<close> elements taken every \<open>s\<close> elements, the
  last one holding what remains. The window loop computes them on what is left of its input
  (lemma \<open>window_loop_wins\<close> below).\<close>

function wins :: "('a list \<Rightarrow> string) \<Rightarrow> nat \<Rightarrow> nat \<Rightarrow> 'a list \<Rightarrow> string list" where
  "wins f m s ys =
     (if ys = [] then []
      else if length ys \<le> m \<or> s = 0 then [f ys]
      else f (take m ys) # wins f m s (drop s ys))"
  by pat_completeness auto
termination
  by (relation "measure (\<lambda>(f, m, s, ys). length ys)") auto

declare wins.simps [simp del]

text \<open>Every chunk but the last without its trailing \<open>k\<close> characters, then the last chunk in
  full, concatenated.\<close>

fun reconstruct :: "nat \<Rightarrow> string list \<Rightarrow> string" where
  "reconstruct k [] = []"
| "reconstruct k [c] = c"
| "reconstruct k (c # d # cs) = take (length c - k) c @ reconstruct k (d # cs)"


section \<open>The window loop computes the windows of its input\<close>

lemma slice_to_end:
  "0 \<le> start \<Longrightarrow> slice xs start (int (length xs)) = drop (nat start) xs"
  by (simp add: slice_def norm_index_def Let_def min_def)

lemma slice_window:
  "0 \<le> start \<Longrightarrow> 0 \<le> m \<Longrightarrow> start + m \<le> int (length xs) \<Longrightarrow>
     slice xs start (start + m) = take (nat m) (drop (nat start) xs)"
  by (simp add: slice_def norm_index_def Let_def min_def nat_add_distrib)

lemma window_loop_wins:
  "0 < m \<Longrightarrow> 0 \<le> ov \<Longrightarrow> 0 \<le> start \<Longrightarrow>
     window_loop f xs m ov start = wins f (nat m) (stride m ov) (drop (nat start) xs)"
proof (induction f xs m ov start rule: window_loop.induct)
  case (1 f xs m ov start)
  let ?n = "int (length xs)"
  show ?case
  proof (cases "start < ?n")
    case False
    then have "drop (nat start) xs = []" by simp
    with False show ?thesis
      by (simp add: window_loop.simps [of f xs m ov start] wins.simps [of f _ _ "[]"])
  next
    case inside: True
    then have nonempty: "drop (nat start) xs \<noteq> []" using 1 by simp
    show ?thesis
    proof (cases "start + m < ?n")
      case False
      then have e: "min (start + m) ?n = ?n" by simp
      have len: "length (drop (nat start) xs) \<le> nat m" using False 1 by simp
      show ?thesis
        using inside nonempty len 1(3-)
        by (simp add: window_loop.simps [of f xs m ov start] e slice_to_end
            wins.simps [of f _ _ "drop (nat start) xs"])
    next
      case True
      then have e: "min (start + m) ?n = start + m" by simp
      have ne: "start + m \<noteq> ?n" using True by simp
      have len: "\<not> length (drop (nat start) xs) \<le> nat m" using True 1 by simp
      have st: "stride m ov \<noteq> 0" using 1 by (simp add: stride_def)
      have nxt: "max (start + m - ov) (start + 1) = start + int (stride m ov)"
        using 1 by (simp add: stride_def max_def min_def)
      have nn: "0 \<le> start + int (stride m ov)" using 1 by simp
      have IH: "window_loop f xs m ov (start + int (stride m ov))
                = wins f (nat m) (stride m ov) (drop (nat (start + int (stride m ov))) xs)"
        using 1(1) [OF inside] e ne nxt 1(2,3) nn by simp
      have dr: "drop (stride m ov) (drop (nat start) xs) = drop (nat (start + int (stride m ov))) xs"
        using 1 by (simp add: nat_add_distrib add.commute)
      have unfold_loop: "window_loop f xs m ov start
          = f (slice xs start (start + m)) # window_loop f xs m ov (start + int (stride m ov))"
        using inside ne by (subst window_loop.simps) (simp add: e nxt)
      have unfold_wins: "wins f (nat m) (stride m ov) (drop (nat start) xs)
          = f (take (nat m) (drop (nat start) xs))
            # wins f (nat m) (stride m ov) (drop (stride m ov) (drop (nat start) xs))"
        using nonempty len st by (subst wins.simps) simp
      have sl: "slice xs start (start + m) = take (nat m) (drop (nat start) xs)"
        using 1 True by (intro slice_window) simp_all
      show ?thesis
        unfolding unfold_loop unfold_wins IH dr sl ..
    qed
  qed
qed


lemma wins_Nil: "wins f m s [] = []"
  by (simp add: wins.simps)

lemma wins_single: "ys \<noteq> [] \<Longrightarrow> length ys \<le> m \<Longrightarrow> wins f m s ys = [f ys]"
  by (simp add: wins.simps)

lemma wins_step:
  "m < length ys \<Longrightarrow> 0 < s \<Longrightarrow> wins f m s ys = f (take m ys) # wins f m s (drop s ys)"
  by (subst wins.simps) auto

lemma wins_nonempty: "ys \<noteq> [] \<Longrightarrow> wins f m s ys \<noteq> []"
  by (subst wins.simps) simp

lemma wins_hd: "ys \<noteq> [] \<Longrightarrow> 0 < s \<Longrightarrow> hd (wins f m s ys) = f (take m ys)"
  by (subst wins.simps) simp

lemma ceil_step: "0 < (s::int) \<Longrightarrow> (x + s) div s = x div s + 1"
  by simp

lemma wins_length:
  "0 < s \<Longrightarrow> s \<le> m \<Longrightarrow> ys \<noteq> [] \<Longrightarrow>
     int (length (wins f m s ys)) = max 1 (- ((int (m - s) - int (length ys)) div int s))"
proof (induction f m s ys rule: wins.induct)
  case (1 f m s ys)
  show ?case
  proof (cases "length ys \<le> m")
    case True
    have "- int s \<le> int (m - s) - int (length ys)" using 1(2-) True by simp
    then have "(- int s) div int s \<le> (int (m - s) - int (length ys)) div int s"
      using 1(2) by (intro zdiv_mono1) simp_all
    moreover have "(- int s) div int s = - 1" using 1(2) by (simp add: zdiv_zminus1_eq_if)
    ultimately have "- 1 \<le> (int (m - s) - int (length ys)) div int s" by simp
    then show ?thesis using True 1(4) by (simp add: wins_single)
  next
    case False
    then have long: "m < length ys" by simp
    have rest: "drop s ys \<noteq> []" using long 1(3) by simp
    have IH: "int (length (wins f m s (drop s ys)))
               = max 1 (- ((int (m - s) - int (length (drop s ys))) div int s))"
      using 1(1) [OF 1(4) _ 1(2) 1(3) rest] False 1(2) by simp
    have eq: "int (m - s) - int (length (drop s ys)) = (int (m - s) - int (length ys)) + int s"
      using long 1(3) by simp
    have d: "(int (m - s) - int (length (drop s ys))) div int s
             = (int (m - s) - int (length ys)) div int s + 1"
      unfolding eq using 1(2) by simp
    have neg: "int (m - s) - int (length (drop s ys)) < 0" using long 1(3) by simp
    then have "(int (m - s) - int (length (drop s ys))) div int s < 0"
      using 1(2) by (simp add: neg_imp_zdiv_neg_iff pos_imp_zdiv_neg_iff)
    then show ?thesis using IH d long 1(2) by (simp add: wins_step)
  qed
qed

lemma reconstruct_Cons:
  "reconstruct k (c # cs) = (if cs = [] then c else take (length c - k) c @ reconstruct k cs)"
  by (cases cs) simp_all

lemma wins_reconstruct:
  "0 < s \<Longrightarrow> s \<le> m \<Longrightarrow> reconstruct (m - s) (wins (\<lambda>w. w) m s ys) = ys"
proof (induction "\<lambda>w::string. w" m s ys rule: wins.induct)
  case (1 m s ys)
  show ?case
  proof (cases "ys = [] \<or> length ys \<le> m")
    case True
    then show ?thesis by (cases "ys = []") (simp_all add: wins_Nil wins_single)
  next
    case False
    then have long: "m < length ys" by simp
    have rest: "drop s ys \<noteq> []" using long 1(3) by simp
    have IH: "reconstruct (m - s) (wins (\<lambda>w. w) m s (drop s ys)) = drop s ys"
      using 1(1) False 1(2,3) by simp
    have "take (length (take m ys) - (m - s)) (take m ys) = take s ys"
      using long 1(3) by (simp add: min_def)
    then show ?thesis
      using long 1(2) IH wins_nonempty [OF rest, of "\<lambda>w. w" m s]
      by (simp add: wins_step reconstruct_Cons)
  qed
qed

lemma wins_overlap:
  "0 < s \<Longrightarrow> s \<le> m \<Longrightarrow> Suc i < length (wins (\<lambda>w. w) m s ys) \<Longrightarrow>
     drop (length (wins (\<lambda>w. w) m s ys ! i) - (m - s)) (wins (\<lambda>w. w) m s ys ! i)
       = take (m - s) (wins (\<lambda>w. w) m s ys ! Suc i)"
proof (induction "\<lambda>w::string. w" m s ys arbitrary: i rule: wins.induct)
  case (1 m s ys)
  have long: "m < length ys"
  proof (rule ccontr)
    assume "\<not> m < length ys"
    then have "length (wins (\<lambda>w. w) m s ys) \<le> 1"
      by (cases "ys = []") (simp_all add: wins_Nil wins_single)
    with 1(4) show False by simp
  qed
  have rest: "drop s ys \<noteq> []" using long 1(3) by simp
  have unfold: "wins (\<lambda>w. w) m s ys = take m ys # wins (\<lambda>w. w) m s (drop s ys)"
    using long 1(2) by (rule wins_step)
  show ?case
  proof (cases i)
    case 0
    have "wins (\<lambda>w. w) m s (drop s ys) ! 0 = take m (drop s ys)"
      using wins_hd [OF rest 1(2), of "\<lambda>w. w" m] wins_nonempty [OF rest, of "\<lambda>w. w" m s]
      by (simp add: hd_conv_nth)
    then show ?thesis
      using 0 long 1(3) unfolding unfold
      by (simp add: min_def drop_take)
  next
    case (Suc j)
    have "Suc j < length (wins (\<lambda>w. w) m s (drop s ys))"
      using 1(4) Suc unfolding unfold by simp
    moreover have "ys \<noteq> []" using long by auto
    ultimately show ?thesis
      using 1(1) [of j] long 1(2,3) Suc unfolding unfold by simp
  qed
qed

lemma wins_runs:
  "0 < s \<Longrightarrow> 0 < m \<Longrightarrow> c \<in> set (wins f m s ys) \<Longrightarrow>
     \<exists>a b. a < b \<and> b \<le> length ys \<and> c = f (take (b - a) (drop a ys))"
proof (induction f m s ys rule: wins.induct)
  case (1 f m s ys)
  show ?case
  proof (cases "ys = []")
    case True
    with 1(4) show ?thesis by (simp add: wins_Nil)
  next
    case nonempty: False
    show ?thesis
    proof (cases "length ys \<le> m")
      case True
      then have "c = f (take (length ys - 0) (drop 0 ys))"
        using 1(4) nonempty by (simp add: wins_single)
      moreover have "0 < length ys" using nonempty by simp
      ultimately show ?thesis by blast
    next
      case False
      then have long: "m < length ys" by simp
      from 1(4) have "c = f (take m ys) \<or> c \<in> set (wins f m s (drop s ys))"
        using long 1(2) by (simp add: wins_step)
      then show ?thesis
      proof
        assume "c = f (take m ys)"
        then have "c = f (take (min m (length ys) - 0) (drop 0 ys))" using long by simp
        moreover have "0 < min m (length ys)" using long 1(3) by simp
        ultimately show ?thesis by (metis min.cobounded2)
      next
        assume "c \<in> set (wins f m s (drop s ys))"
        then obtain a b where ab: "a < b" "b \<le> length (drop s ys)"
            "c = f (take (b - a) (drop a (drop s ys)))"
          using 1(1) nonempty False 1(2,3) by blast
        then have "a + s < b + s" "b + s \<le> length ys"
            "c = f (take ((b + s) - (a + s)) (drop (a + s) ys))"
          using long by (simp_all add: add.commute)
        then show ?thesis by blast
      qed
    qed
  qed
qed


section \<open>The character chunker\<close>

lemma charwise_windows:
  assumes "0 < max_chars" and "0 \<le> overlap_chars"
  shows "chunk_text_charwise text max_chars overlap_chars
           = Inr (wins (\<lambda>w. w) (nat max_chars) (stride max_chars overlap_chars) text)"
  using assms window_loop_wins [of max_chars overlap_chars 0 "\<lambda>w. w" "text"]
  by (simp add: chunk_text_charwise_def)

lemma stride_small_overlap:
  "0 \<le> ov \<Longrightarrow> ov < m \<Longrightarrow> stride m ov = nat (m - ov)"
  by (simp add: stride_def min_def)

lemma charwise_example_count: "chunk_text_charwise ''abcde'' 3 1 = Inr [''abc'', ''cde'']"
  by code_simp

text \<open>
  Claim C2, as stated: for non-empty text and \<open>0 \<le> overlap_chars < max_chars\<close> the number
  of chunks of \<^verbatim>\<open>chunk_text_charwise\<close> is
  \<open>\<lceil>len(text) / (max_chars - overlap_chars)\<rceil>\<close>. It fails on five characters with
  \<open>max_chars = 3\<close> and \<open>overlap_chars = 1\<close>: the chunks are \<^verbatim>\<open>abc\<close> and \<^verbatim>\<open>cde\<close>, two of
  them, and the formula gives three.
\<close>

theorem charwise_count_counterexample:
  "chunk_text_charwise ''abcde'' 3 1 = Inr [''abc'', ''cde'']
   \<and> int (length [''abc'', ''cde''])
       \<noteq> \<lceil>real (length ''abcde'') / real_of_int (3 - 1)\<rceil>"
proof -
  have "\<lceil>real (length ''abcde'') / real_of_int (3 - 1)\<rceil> = \<lceil>5 / (2::real)\<rceil>" by simp
  also have "\<dots> = 3" by (simp add: ceiling_eq_iff)
  finally show ?thesis using charwise_example_count by simp
qed

text \<open>
  Claim C2, amended: for non-empty text and \<open>0 \<le> overlap_chars < max_chars\<close> the call
  returns \<open>max 1 \<lceil>(len(text) - overlap_chars) / (max_chars - overlap_chars)\<rceil>\<close> chunks: the
  last window already covers the final \<open>overlap_chars\<close> characters.
\<close>

theorem charwise_count:
  assumes "text \<noteq> []" and "0 \<le> overlap_chars" and "overlap_chars < max_chars"
  shows "\<exists>chunks. chunk_text_charwise text max_chars overlap_chars = Inr chunks
           \<and> int (length chunks)
               = max 1 \<lceil>(real (length text) - real_of_int overlap_chars)
                          / real_of_int (max_chars - overlap_chars)\<rceil>"
proof -
  let ?m = "nat max_chars" and ?s = "nat (max_chars - overlap_chars)"
  have pos: "0 < ?s" and le: "?s \<le> ?m" using assms by simp_all
  have diff: "int (?m - ?s) = overlap_chars" using assms by simp
  have s: "int ?s = max_chars - overlap_chars" using assms by simp
  have "int (length (wins (\<lambda>w. w) ?m ?s text))
          = max 1 (- ((int (?m - ?s) - int (length text)) div int ?s))"
    using pos le assms(1) by (rule wins_length)
  also have "\<dots> = max 1 (- ((- (int (length text) - overlap_chars)) div (max_chars - overlap_chars)))"
    unfolding diff s by simp
  also have "- ((- (int (length text) - overlap_chars)) div (max_chars - overlap_chars))
          = \<lceil>real_of_int (int (length text) - overlap_chars)
              / real_of_int (max_chars - overlap_chars)\<rceil>"
    by (simp only: ceiling_divide_eq_div)
  finally have "int (length (wins (\<lambda>w. w) ?m ?s text))
      = max 1 \<lceil>(real (length text) - real_of_int overlap_chars)
                / real_of_int (max_chars - overlap_chars)\<rceil>"
    by simp
  moreover have "chunk_text_charwise text max_chars overlap_chars
                   = Inr (wins (\<lambda>w. w) ?m ?s text)"
    using assms by (simp add: charwise_windows stride_small_overlap)
  ultimately show ?thesis by blast
qed

theorem charwise_count_witness:
  "''abcde'' \<noteq> [] \<and> (0::int) \<le> 1 \<and> (1::int) < 3
   \<and> (\<exists>chunks. chunk_text_charwise ''abcde'' 3 1 = Inr chunks
         \<and> int (length chunks)
             = max 1 \<lceil>(real (length ''abcde'') - real_of_int 1) / real_of_int (3 - 1)\<rceil>)"
proof -
  have a: "''abcde'' \<noteq> []" and b: "(0::int) \<le> 1" and c: "(1::int) < 3" by simp_all
  from charwise_count [OF a b c] a b c show ?thesis by blast
qed

text \<open>
  Claim C3. For \<open>0 \<le> overlap_chars < max_chars\<close>, every chunk of \<^verbatim>\<open>chunk_text_charwise\<close>
  but the last without its trailing \<open>overlap_chars\<close> characters, followed by the last chunk
  in full, is the text again.
\<close>

theorem charwise_roundtrip:
  assumes "0 \<le> overlap_chars" and "overlap_chars < max_chars"
  shows "\<exists>chunks. chunk_text_charwise text max_chars overlap_chars = Inr chunks
           \<and> reconstruct (nat overlap_chars) chunks = text"
proof -
  let ?m = "nat max_chars" and ?s = "nat (max_chars - overlap_chars)"
  have pos: "0 < ?s" and le: "?s \<le> ?m" using assms by simp_all
  have diff: "?m - ?s = nat overlap_chars" using assms by simp
  have "reconstruct (?m - ?s) (wins (\<lambda>w. w) ?m ?s text) = text"
    using pos le by (rule wins_reconstruct)
  moreover have "chunk_text_charwise text max_chars overlap_chars
                   = Inr (wins (\<lambda>w. w) ?m ?s text)"
    using assms by (simp add: charwise_windows stride_small_overlap)
  ultimately show ?thesis unfolding diff by blast
qed

theorem charwise_roundtrip_witness:
  "(0::int) \<le> 1 \<and> (1::int) < 3
   \<and> (\<exists>chunks. chunk_text_charwise ''abcde'' 3 1 = Inr chunks
         \<and> reconstruct (nat 1) chunks = ''abcde'')"
proof -
  have b: "(0::int) \<le> 1" and c: "(1::int) < 3" by simp_all
  from charwise_roundtrip [OF b c, of "''abcde''"] show ?thesis by simp
qed

lemma slice_from_last:
  "0 < k \<Longrightarrow> slice_from c (- k) = drop (length c - nat k) c"
  by (simp add: slice_from_def norm_index_def max_def nat_diff_distrib')

lemma slice_first: "0 \<le> k \<Longrightarrow> slice c 0 k = take (nat k) c"
  by (simp add: slice_def norm_index_def Let_def min_def)

lemma charwise_example_overlap: "chunk_text_charwise ''abc'' 2 2 = Inr [''ab'', ''bc'']"
  by code_simp

text \<open>
  Claim C4, as stated: for \<open>overlap_chars > 0\<close> and adjacent chunks of
  \<^verbatim>\<open>chunk_text_charwise\<close> of at least \<open>overlap_chars\<close> characters each, the last
  \<open>overlap_chars\<close> characters of the first are the first \<open>overlap_chars\<close> of the second.
  It fails when \<open>overlap_chars = max_chars\<close>: the progress guarantee of the loop then moves
  the window by one character, and \<^verbatim>\<open>"abc"\<close> with both set to 2 gives \<^verbatim>\<open>ab\<close> and
  \<^verbatim>\<open>bc\<close>, which share one character and not two.
\<close>

theorem charwise_overlap_counterexample:
  "chunk_text_charwise ''abc'' 2 2 = Inr [''ab'', ''bc'']
   \<and> (2::int) \<le> int (length ''ab'') \<and> (2::int) \<le> int (length ''bc'')
   \<and> slice_from ''ab'' (- 2) \<noteq> slice ''bc'' 0 2"
  using charwise_example_overlap by (simp add: slice_from_def slice_def norm_index_def)

text \<open>
  Claim C4, amended: the same with \<open>overlap_chars < max_chars\<close>.
\<close>

theorem charwise_overlap:
  assumes "0 < overlap_chars" and "overlap_chars < max_chars"
    and "chunk_text_charwise text max_chars overlap_chars = Inr chunks"
    and "Suc i < length chunks"
    and "overlap_chars \<le> int (length (chunks ! i))"
    and "overlap_chars \<le> int (length (chunks ! Suc i))"
  shows "slice_from (chunks ! i) (- overlap_chars) = slice (chunks ! Suc i) 0 overlap_chars"
proof -
  let ?m = "nat max_chars" and ?s = "nat (max_chars - overlap_chars)"
  have pos: "0 < ?s" and le: "?s \<le> ?m" using assms by simp_all
  have diff: "?m - ?s = nat overlap_chars" using assms by simp
  have chunks: "chunks = wins (\<lambda>w. w) ?m ?s text"
    using assms by (simp add: charwise_windows stride_small_overlap)
  have "drop (length (chunks ! i) - (?m - ?s)) (chunks ! i) = take (?m - ?s) (chunks ! Suc i)"
    using pos le assms(4) unfolding chunks by (rule wins_overlap)
  then show ?thesis
    using assms(1) unfolding diff by (simp add: slice_from_last slice_first)
qed

theorem charwise_overlap_witness:
  "(0::int) < 1 \<and> (1::int) < 3
   \<and> chunk_text_charwise ''abcde'' 3 1 = Inr [''abc'', ''cde'']
   \<and> Suc 0 < length [''abc'', ''cde'']
   \<and> (1::int) \<le> int (length ([''abc'', ''cde''] ! 0))
   \<and> (1::int) \<le> int (length ([''abc'', ''cde''] ! Suc 0))
   \<and> slice_from ([''abc'', ''cde''] ! 0) (- 1) = slice ([''abc'', ''cde''] ! Suc 0) 0 1"
proof -
  have a: "(0::int) < 1" and b: "(1::int) < 3" by simp_all
  have d: "Suc 0 < length [''abc'', ''cde'']" by simp
  have e: "(1::int) \<le> int (length ([''abc'', ''cde''] ! 0))" by simp
  have f: "(1::int) \<le> int (length ([''abc'', ''cde''] ! Suc 0))" by simp
  from charwise_overlap [OF a b charwise_example_count d e f] a b charwise_example_count d e f
  show ?thesis by blast
qed

section \<open>The sentence chunker: a buffer that cannot take the next sentence\<close>

text \<open>
  When the buffer is not empty, is no longer than \<open>overlap_chars\<close> and cannot take sentence
  \<open>i\<close>, the loop emits the buffer and reseeds it with itself: every iteration ends in the
  state it started from, with one more chunk.
\<close>

lemma sentence_loop_stuck:
  assumes "i < length ss" and "current \<noteq> []" and "0 < ov" and "int (length current) \<le> ov"
    and "m < int (length current) + 1 + int (length (ss ! i))"
  shows "sentence_loop ss m ov chunks current i = None"
proof (rule ccontr)
  assume "sentence_loop ss m ov chunks current i \<noteq> None"
  then obtain y where ret: "sentence_loop ss m ov chunks current i = Some y" by auto
  have reseed: "slice_from current (- ov) = current"
    using assms(3,4) by (simp add: slice_from_def norm_index_def)
  have "\<not> (ss = ss \<and> m = m \<and> ov = ov \<and> current = current \<and> i = i)"
  proof (rule sentence_loop.raw_induct
      [where P = "\<lambda>s m' o' c cur j y. \<not> (s = ss \<and> m' = m \<and> o' = ov \<and> cur = current \<and> j = i)",
        OF _ ret])
    fix loop s m' o' c cur j y
    assume IH: "\<And>s m' o' c cur j y. loop s m' o' c cur j = Some y
                  \<Longrightarrow> \<not> (s = ss \<and> m' = m \<and> o' = ov \<and> cur = current \<and> j = i)"
      and body: "(if j < length s then
        (if int (length cur) + (if cur \<noteq> [] then 1 else 0) + int (length (s ! j)) \<le> m' \<or> cur = []
         then loop s m' o' c (if cur \<noteq> [] then strip (cur @ '' '' @ s ! j) else s ! j) (j + 1)
         else loop s m' o' (c @ [cur]) (if o' > 0 then slice_from cur (- o') else []) j)
      else Some (c, cur)) = Some y"
    show "\<not> (s = ss \<and> m' = m \<and> o' = ov \<and> cur = current \<and> j = i)"
    proof
      assume stuck: "s = ss \<and> m' = m \<and> o' = ov \<and> cur = current \<and> j = i"
      with body assms reseed have "loop ss m ov (c @ [current]) current i = Some y" by simp
      from IH [OF this] show False by simp
    qed
  qed
  then show False by simp
qed

lemma sample_sentences:
  "sentences_of sample =
     [''This is a short example.'',
      ''It demonstrates chunking by sentences, characters, or tokens.'',
      ''Use token-based chunking for embeddings and character/sentence chunking for simpler pipelines.'']"
  by code_simp

text \<open>
  Claim C1 says that every call with valid arguments ends after finitely many iterations.
  The two window loops do (\<open>window_loop\<close> is a total function, by its termination proof),
  the sentence loop does not: the demonstration of the module itself,
  \<^verbatim>\<open>chunk_text_sentencewise(sample, max_chars=50, overlap_chars=10)\<close>, emits the first
  sentence, keeps its last ten characters and then emits them for ever, because they do not
  fit with the second sentence.
\<close>

theorem sentencewise_demo_diverges: "chunk_text_sentencewise sample 50 10 = None"
proof -
  let ?ss = "sentences_of sample"
  have one: "sentence_loop ?ss 50 10 [] [] 0 = sentence_loop ?ss 50 10 [] ''This is a short example.'' 1"
    by (subst sentence_loop.simps) (simp add: sample_sentences)
  have two: "sentence_loop ?ss 50 10 [] ''This is a short example.'' 1
             = sentence_loop ?ss 50 10 [''This is a short example.''] ''t example.'' 1"
    by (subst sentence_loop.simps) (simp add: sample_sentences slice_from_def norm_index_def)
  have three: "sentence_loop ?ss 50 10 [''This is a short example.''] ''t example.'' 1 = None"
    by (rule sentence_loop_stuck) (simp_all add: sample_sentences)
  have "sentence_loop ?ss 50 10 [] [] 0 = None"
    by (simp only: one two three)
  then show ?thesis by (simp add: chunk_text_sentencewise_def)
qed

text \<open>
  Claim C8 says that a sentence longer than \<open>max_chars\<close> is emitted whole. With a positive
  overlap and a sentence before it, the call never returns: the buffer reseeded from the
  chunk before is not empty, so the guard for an empty buffer does not apply.
\<close>

theorem sentencewise_long_sentence_diverges:
  "chunk_text_sentencewise ''Hi. Averylongsentencewithnospaces.'' 5 1 = None"
proof -
  have ss: "sentences_of ''Hi. Averylongsentencewithnospaces.'' = [''Hi.'', ''Averylongsentencewithnospaces.'']"
    by code_simp
  let ?ss = "[''Hi.'', ''Averylongsentencewithnospaces.'']"
  have one: "sentence_loop ?ss 5 1 [] [] 0 = sentence_loop ?ss 5 1 [] ''Hi.'' 1"
    by (subst sentence_loop.simps) simp
  have two: "sentence_loop ?ss 5 1 [] ''Hi.'' 1 = sentence_loop ?ss 5 1 [''Hi.''] ''.'' 1"
    by (subst sentence_loop.simps) (simp add: slice_from_def norm_index_def)
  have three: "sentence_loop ?ss 5 1 [''Hi.''] ''.'' 1 = None"
    by (rule sentence_loop_stuck) simp_all
  have "sentence_loop ?ss 5 1 [] [] 0 = None"
    by (simp only: one two three)
  then show ?thesis by (simp add: chunk_text_sentencewise_def ss)
qed

text \<open>The example of the claim itself, a text of one sentence, is returned whole.\<close>

lemma sentencewise_long_sentence_example:
  "chunk_text_sentencewise ''Averylongsentencewithnospaces.'' 5 0
     = Some (Inr [''Averylongsentencewithnospaces.''])"
  by code_simp

section \<open>The token chunker without an external tokenizer\<close>

lemma fallback_tokens_example:
  "window_loop (join '' '') (split_ws ''a b c d e'') 2 0 0 = [''a b'', ''c d'', ''e'']"
  by code_simp

text \<open>
  Claim C9. When the tokenizer cannot be resolved, so that the white-space fallback runs,
  \<^verbatim>\<open>chunk_text_tokenwise("a b c d e", max_tokens=2, overlap=0)\<close> returns the list
  \<^verbatim>\<open>["a b", "c d", "e"]\<close>.
\<close>

theorem tokenwise_fallback_example:
  assumes "try_get_tokenizer tiktoken tokenizer_name = None"
  shows "chunk_text_tokenwise tiktoken ''a b c d e'' 2 0 tokenizer_name
           = Inr [''a b'', ''c d'', ''e'']"
  using assms by (simp add: chunk_text_tokenwise_def fallback_tokens_example)

theorem tokenwise_fallback_example_witness:
  "try_get_tokenizer (None :: nat tiktoken) ''gpt2'' = None
   \<and> chunk_text_tokenwise (None :: nat tiktoken) ''a b c d e'' 2 0 ''gpt2''
         = Inr [''a b'', ''c d'', ''e'']"
proof -
  have unavailable: "try_get_tokenizer (None :: nat tiktoken) ''gpt2'' = None"
    by (simp add: try_get_tokenizer_def)
  from unavailable tokenwise_fallback_example [OF unavailable] show ?thesis by simp
qed


end
